theory Spec2Isabelle
  imports Complex_Main
begin

section \<open>JavaScript numbers\<close>

text \<open>
  A JavaScript number is an IEEE double. The three special values that the language can
  produce without raising are kept apart; a finite double is read as the real number it
  denotes, and the sign of zero is not modelled. The operations of this section are the
  exact real operations on finite operands: with them a function returns the value of the
  program up to rounding. The next section rounds.
\<close>

datatype jsnum = NaN | NegInf | Fin real | PosInf

fun js_neg :: "jsnum \<Rightarrow> jsnum" where
  "js_neg NaN = NaN"
| "js_neg NegInf = PosInf"
| "js_neg PosInf = NegInf"
| "js_neg (Fin a) = Fin (- a)"

fun js_add :: "jsnum \<Rightarrow> jsnum \<Rightarrow> jsnum" where
  "js_add NaN _ = NaN"
| "js_add _ NaN = NaN"
| "js_add (Fin a) (Fin b) = Fin (a + b)"
| "js_add PosInf NegInf = NaN"
| "js_add NegInf PosInf = NaN"
| "js_add PosInf _ = PosInf"
| "js_add NegInf _ = NegInf"
| "js_add (Fin a) PosInf = PosInf"
| "js_add (Fin a) NegInf = NegInf"

definition js_sub :: "jsnum \<Rightarrow> jsnum \<Rightarrow> jsnum" where
  "js_sub x y = js_add x (js_neg y)"

text \<open>The sign of an infinite product or quotient; a zero operand counts as positive zero.\<close>

definition signed_inf :: "bool \<Rightarrow> jsnum" where
  "signed_inf positive = (if positive then PosInf else NegInf)"

fun js_mul :: "jsnum \<Rightarrow> jsnum \<Rightarrow> jsnum" where
  "js_mul NaN _ = NaN"
| "js_mul _ NaN = NaN"
| "js_mul (Fin a) (Fin b) = Fin (a * b)"
| "js_mul PosInf PosInf = PosInf"
| "js_mul PosInf NegInf = NegInf"
| "js_mul NegInf PosInf = NegInf"
| "js_mul NegInf NegInf = PosInf"
| "js_mul PosInf (Fin b) = (if b = 0 then NaN else signed_inf (0 < b))"
| "js_mul NegInf (Fin b) = (if b = 0 then NaN else signed_inf (b < 0))"
| "js_mul (Fin a) PosInf = (if a = 0 then NaN else signed_inf (0 < a))"
| "js_mul (Fin a) NegInf = (if a = 0 then NaN else signed_inf (a < 0))"

fun js_div :: "jsnum \<Rightarrow> jsnum \<Rightarrow> jsnum" where
  "js_div NaN _ = NaN"
| "js_div _ NaN = NaN"
| "js_div (Fin a) (Fin b) =
     (if b = 0 then (if a = 0 then NaN else signed_inf (0 < a)) else Fin (a / b))"
| "js_div (Fin a) PosInf = Fin 0"
| "js_div (Fin a) NegInf = Fin 0"
| "js_div PosInf (Fin b) = signed_inf (0 \<le> b)"
| "js_div NegInf (Fin b) = signed_inf (b < 0)"
| "js_div _ _ = NaN"

text \<open>Comparisons: every comparison with \<open>NaN\<close> is false.\<close>

fun js_le :: "jsnum \<Rightarrow> jsnum \<Rightarrow> bool" where
  "js_le NaN _ = False"
| "js_le _ NaN = False"
| "js_le NegInf _ = True"
| "js_le _ PosInf = True"
| "js_le (Fin a) (Fin b) = (a \<le> b)"
| "js_le _ _ = False"

fun js_lt :: "jsnum \<Rightarrow> jsnum \<Rightarrow> bool" where
  "js_lt NaN _ = False"
| "js_lt _ NaN = False"
| "js_lt (Fin a) (Fin b) = (a < b)"
| "js_lt NegInf NegInf = False"
| "js_lt PosInf PosInf = False"
| "js_lt NegInf _ = True"
| "js_lt _ PosInf = True"
| "js_lt _ _ = False"

definition js_ge :: "jsnum \<Rightarrow> jsnum \<Rightarrow> bool" where
  "js_ge x y = js_le y x"

definition js_gt :: "jsnum \<Rightarrow> jsnum \<Rightarrow> bool" where
  "js_gt x y = js_lt y x"

text \<open>\<open>Math.max\<close>, \<open>Math.min\<close> and \<open>Math.abs\<close>: \<open>NaN\<close> if an argument is \<open>NaN\<close>.\<close>

fun Math_max :: "jsnum \<Rightarrow> jsnum \<Rightarrow> jsnum" where
  "Math_max NaN _ = NaN"
| "Math_max _ NaN = NaN"
| "Math_max x y = (if js_le x y then y else x)"

fun Math_min :: "jsnum \<Rightarrow> jsnum \<Rightarrow> jsnum" where
  "Math_min NaN _ = NaN"
| "Math_min _ NaN = NaN"
| "Math_min x y = (if js_le x y then x else y)"

fun Math_abs :: "jsnum \<Rightarrow> jsnum" where
  "Math_abs NaN = NaN"
| "Math_abs NegInf = PosInf"
| "Math_abs PosInf = PosInf"
| "Math_abs (Fin a) = Fin \<bar>a\<bar>"

section \<open>Rounding to binary64\<close>

text \<open>
  The result of an arithmetic operation of the program is the exact result rounded to the
  nearest double, ties to the even significand. \<open>binade x\<close> is the exponent \<open>e\<close> with
  \<open>2^e \<le> |x| < 2^(e+1)\<close>; the doubles of that binade are the multiples of \<open>2^(e-52)\<close>, and
  below \<open>2^-1022\<close> (the subnormal range) of \<open>2^-1074\<close>; \<open>nearest_double\<close> rounds to the
  nearest multiple. A rounded magnitude of \<open>2^1024\<close> or more overflows to an infinity. The operations \<open>fl_add\<close>, \<open>fl_sub\<close>, \<open>fl_mul\<close> and
  \<open>fl_div\<close> are the program's \<open>+\<close>, \<open>-\<close>, \<open>*\<close> and \<open>/\<close> on doubles. They are used wherever
  a claim turns on a comparison of computed numbers.
\<close>

definition binade :: "real \<Rightarrow> int" where
  "binade x = \<lfloor>log 2 \<bar>x\<bar>\<rfloor>"

definition round_half_even :: "real \<Rightarrow> int" where
  "round_half_even x =
     (let n = \<lfloor>x\<rfloor>; r = x - of_int n in
      if r < 1 / 2 then n else if 1 / 2 < r then n + 1 else if even n then n else n + 1)"

definition quantum :: "real \<Rightarrow> real" where
  "quantum x = 2 powi (max (binade x) (- 1022) - 52)"

definition nearest_double :: "real \<Rightarrow> real" where
  "nearest_double x = of_int (round_half_even (x / quantum x)) * quantum x"

definition binary64 :: "real \<Rightarrow> jsnum" where
  "binary64 x =
     (if x = 0 then Fin 0
      else if 2 powi 1024 \<le> \<bar>nearest_double x\<bar> then signed_inf (0 < x)
      else Fin (nearest_double x))"

fun to_double :: "jsnum \<Rightarrow> jsnum" where
  "to_double (Fin a) = binary64 a"
| "to_double v = v"

definition fl_add :: "jsnum \<Rightarrow> jsnum \<Rightarrow> jsnum" where
  "fl_add x y = to_double (js_add x y)"

definition fl_sub :: "jsnum \<Rightarrow> jsnum \<Rightarrow> jsnum" where
  "fl_sub x y = to_double (js_sub x y)"

definition fl_mul :: "jsnum \<Rightarrow> jsnum \<Rightarrow> jsnum" where
  "fl_mul x y = to_double (js_mul x y)"

definition fl_div :: "jsnum \<Rightarrow> jsnum \<Rightarrow> jsnum" where
  "fl_div x y = to_double (js_div x y)"

section \<open>The geometry module (src/utils/geometry.js)\<close>

definition DAYS_IN_10_YEARS :: jsnum where
  "DAYS_IN_10_YEARS = js_mul (Fin 10) (Fin 365)"

definition ANGLE_PER_DAY :: jsnum where
  "ANGLE_PER_DAY = js_div (Fin 360) DAYS_IN_10_YEARS"

subsection \<open>Percentages to angles\<close>

text \<open>\<open>mapPerformanceToAngle\<close>: a clamp to \<open>\<plusminus>50\<close>, then a chain of eight linear pieces.\<close>

definition mapPerformanceToAngle :: "jsnum \<Rightarrow> jsnum" where
  "mapPerformanceToAngle performancePercent =
     (let pct = Math_max (Fin (- 50)) (Math_min (Fin 50) performancePercent) in
      if js_le pct (Fin (- 30)) then
        js_add (Fin (- 90)) (js_mul (js_div (js_add pct (Fin 30)) (Fin 20)) (Fin 30))
      else if js_le pct (Fin (- 15)) then
        js_add (Fin (- 60)) (js_mul (js_div (js_add pct (Fin 15)) (Fin 15)) (Fin 30))
      else if js_le pct (Fin (- 5)) then
        js_add (Fin (- 30)) (js_mul (js_div (js_add pct (Fin 5)) (Fin 10)) (Fin 30))
      else if js_le pct (Fin 0) then
        js_mul (js_div pct (Fin 5)) (Fin 30)
      else if js_le pct (Fin 5) then
        js_mul (js_div pct (Fin 5)) (Fin 30)
      else if js_le pct (Fin 15) then
        js_add (Fin 30) (js_mul (js_div (js_sub pct (Fin 5)) (Fin 10)) (Fin 30))
      else if js_le pct (Fin 30) then
        js_add (Fin 60) (js_mul (js_div (js_sub pct (Fin 15)) (Fin 15)) (Fin 30))
      else
        js_add (Fin 90) (js_mul (js_div (js_sub pct (Fin 30)) (Fin 20)) (Fin 30)))"

definition easeOutQuad :: "jsnum \<Rightarrow> jsnum" where
  "easeOutQuad t = js_mul t (js_sub (Fin 2) t)"

text \<open>\<open>mapBarrierToAngle\<close> of the geometry module delegates to the performance mapping.\<close>

definition mapBarrierToAngle :: "jsnum \<Rightarrow> jsnum" where
  "mapBarrierToAngle barrierPercent = mapPerformanceToAngle barrierPercent"

definition mapHurdlePercentToAngle :: "jsnum \<Rightarrow> jsnum" where
  "mapHurdlePercentToAngle hurdlePercent =
     (let pct = Math_max (Fin 50) (Math_min (Fin 150) hurdlePercent) in
      if js_le pct (Fin 70) then
        js_add (Fin (- 90)) (js_mul (js_div (js_sub pct (Fin 70)) (Fin 20)) (Fin 30))
      else if js_le pct (Fin 85) then
        js_add (Fin (- 60)) (js_mul (js_div (js_sub pct (Fin 85)) (Fin 15)) (Fin 30))
      else if js_le pct (Fin 95) then
        js_add (Fin (- 30)) (js_mul (js_div (js_sub pct (Fin 95)) (Fin 10)) (Fin 30))
      else if js_le pct (Fin 100) then
        js_mul (js_div (js_sub pct (Fin 100)) (Fin 5)) (Fin 30)
      else if js_le pct (Fin 105) then
        js_mul (js_div (js_sub pct (Fin 100)) (Fin 5)) (Fin 30)
      else if js_le pct (Fin 115) then
        js_add (Fin 30) (js_mul (js_div (js_sub pct (Fin 105)) (Fin 10)) (Fin 30))
      else if js_le pct (Fin 130) then
        js_add (Fin 60) (js_mul (js_div (js_sub pct (Fin 115)) (Fin 15)) (Fin 30))
      else
        js_add (Fin 90) (js_mul (js_div (js_sub pct (Fin 130)) (Fin 20)) (Fin 30)))"


subsection \<open>Dates and rotation\<close>

text \<open>
  A \<open>Date\<close> object is its time value: the milliseconds since the epoch, or \<open>NaN\<close> for an
  invalid date. The constructor \<open>new Date(string)\<close> belongs to the platform; it is the
  parameter \<open>new_Date\<close>, giving the time value of the date it builds.

  The language does not type the date parameters. A caller can pass a string, a \<open>Date\<close>
  object, or any other value: \<open>undefined\<close> (also what an omitted argument is), \<open>null\<close>, a
  number, or \<open>OtherValue\<close>, which stands for every further value that is not a string and
  has no \<open>getTime\<close> method (an object that carries a \<open>getTime\<close> method of its own is not
  modelled). Calling \<open>getTime\<close> on anything but a \<open>Date\<close> object raises a \<open>TypeError\<close>,
  which the callers do not catch.
\<close>

datatype js_error = TypeError

datatype js_date = Date (getTime: jsnum)

datatype date_arg =
  DateString string | DateObject js_date | Undefined | Null | NumberValue jsnum | OtherValue

definition parseDate :: "(string \<Rightarrow> jsnum) \<Rightarrow> string \<Rightarrow> js_date" where
  "parseDate new_Date dateStr = Date (new_Date (dateStr @ ''T00:00:00Z''))"

text \<open>The conditional \<open>typeof d === 'string' ? parseDate(d) : d\<close> of \<open>daysBetween\<close>.\<close>

definition string_or_date :: "(string \<Rightarrow> jsnum) \<Rightarrow> date_arg \<Rightarrow> date_arg" where
  "string_or_date new_Date d =
     (case d of DateString s \<Rightarrow> DateObject (parseDate new_Date s) | _ \<Rightarrow> d)"

text \<open>The method call \<open>d.getTime()\<close>.\<close>

definition call_getTime :: "date_arg \<Rightarrow> js_error + jsnum" where
  "call_getTime d = (case d of DateObject obj \<Rightarrow> Inr (getTime obj) | _ \<Rightarrow> Inl TypeError)"

definition daysBetween ::
  "(string \<Rightarrow> jsnum) \<Rightarrow> date_arg \<Rightarrow> date_arg \<Rightarrow> js_error + jsnum" where
  "daysBetween new_Date startDate endDate =
     (let start = string_or_date new_Date startDate;
          end = string_or_date new_Date endDate
      in case call_getTime end of
           Inl err \<Rightarrow> Inl err
         | Inr end_time \<Rightarrow>
             (case call_getTime start of
                Inl err \<Rightarrow> Inl err
              | Inr start_time \<Rightarrow>
                  (let diffTime = js_sub end_time start_time in
                   Inr (js_div diffTime
                          (js_mul (js_mul (js_mul (Fin 1000) (Fin 60)) (Fin 60)) (Fin 24))))))"

definition calculateRotationAngle ::
  "(string \<Rightarrow> jsnum) \<Rightarrow> date_arg \<Rightarrow> date_arg \<Rightarrow> js_error + jsnum" where
  "calculateRotationAngle new_Date startDate currentDate =
     (case daysBetween new_Date startDate currentDate of
        Inl err \<Rightarrow> Inl err
      | Inr days \<Rightarrow> Inr (js_mul days ANGLE_PER_DAY))"


subsection \<open>Angle normalisation\<close>

text \<open>
  \<open>normalizeAngle\<close> is two \<open>while\<close> loops in sequence, on rounded arithmetic. A loop
  does not end on an infinite angle, nor on a finite one so large that subtracting 360
  rounds back to it, so each loop returns an option: \<open>None\<close> is the run that does not
  return.
\<close>

partial_function (option) while_above_180 :: "jsnum \<Rightarrow> jsnum option" where
  "while_above_180 angle =
     (if js_gt angle (Fin 180) then while_above_180 (fl_sub angle (Fin 360)) else Some angle)"

partial_function (option) while_below_minus_180 :: "jsnum \<Rightarrow> jsnum option" where
  "while_below_minus_180 angle =
     (if js_lt angle (Fin (- 180)) then while_below_minus_180 (fl_add angle (Fin 360))
      else Some angle)"

definition normalizeAngle :: "jsnum \<Rightarrow> jsnum option" where
  "normalizeAngle angle =
     (case while_above_180 angle of
        None \<Rightarrow> None
      | Some angle' \<Rightarrow> while_below_minus_180 angle')"

text \<open>
  The dial component \<open>DynamicLogo\<close> has a local helper of the same name;
  its second loop runs while \<open>angle <= -180\<close>.
\<close>

partial_function (option) while_at_most_minus_180 :: "jsnum \<Rightarrow> jsnum option" where
  "while_at_most_minus_180 angle =
     (if js_le angle (Fin (- 180)) then while_at_most_minus_180 (fl_add angle (Fin 360))
      else Some angle)"

definition normalizeAngle_component :: "jsnum \<Rightarrow> jsnum option" where
  "normalizeAngle_component angle =
     (case while_above_180 angle of
        None \<Rightarrow> None
      | Some angle' \<Rightarrow> while_at_most_minus_180 angle')"

subsection \<open>Coordinates and arc paths\<close>

text \<open>
  The arithmetic is the rounded one. \<open>Math.PI\<close> is the double nearest to \<open>pi\<close>;
  \<open>Math.cos\<close> and \<open>Math.sin\<close> are taken as the rounded real functions on finite
  arguments (the platform may be off by a unit in the last place; no claim depends on
  it) and are \<open>NaN\<close> elsewhere. The fields \<open>x\<close> and \<open>y\<close> of the returned object are
  \<open>coord_x\<close> and \<open>coord_y\<close>. The default values of \<open>cx\<close> and \<open>cy\<close> are not modelled:
  \<open>describeArc\<close> passes both.
\<close>

definition Math_PI :: jsnum where
  "Math_PI = binary64 pi"

fun Math_cos :: "jsnum \<Rightarrow> jsnum" where
  "Math_cos (Fin a) = binary64 (cos a)"
| "Math_cos _ = NaN"

fun Math_sin :: "jsnum \<Rightarrow> jsnum" where
  "Math_sin (Fin a) = binary64 (sin a)"
| "Math_sin _ = NaN"

record coords =
  coord_x :: jsnum
  coord_y :: jsnum

definition angleToCoords :: "jsnum \<Rightarrow> jsnum \<Rightarrow> jsnum \<Rightarrow> jsnum \<Rightarrow> coords" where
  "angleToCoords angleDeg radius cx cy =
     (let adjustedAngle = fl_sub angleDeg (Fin 90);
          radians = fl_div (fl_mul adjustedAngle Math_PI) (Fin 180)
      in \<lparr> coord_x = fl_add cx (fl_mul radius (Math_cos radians)),
           coord_y = fl_add cy (fl_mul radius (Math_sin radians)) \<rparr>)"

text \<open>
  The template literal of \<open>describeArc\<close>. The conversion of a number to its string belongs
  to the platform; it is the parameter \<open>toString\<close>.
\<close>

definition describeArc ::
  "(jsnum \<Rightarrow> string) \<Rightarrow> jsnum \<Rightarrow> jsnum \<Rightarrow> jsnum \<Rightarrow> jsnum \<Rightarrow> jsnum \<Rightarrow> string" where
  "describeArc toString cx cy radius startAngle endAngle =
     (let start = angleToCoords startAngle radius cx cy;
          end = angleToCoords endAngle radius cx cy;
          largeArcFlag =
            (if js_gt (Math_abs (fl_sub endAngle startAngle)) (Fin 180) then Fin 1 else Fin 0);
          sweepFlag = (if js_gt endAngle startAngle then Fin 1 else Fin 0)
      in ''M '' @ toString (coord_x start) @ '' '' @ toString (coord_y start)
         @ '' A '' @ toString radius @ '' '' @ toString radius @ '' 0 ''
         @ toString largeArcFlag @ '' '' @ toString sweepFlag @ '' ''
         @ toString (coord_x end) @ '' '' @ toString (coord_y end))"

section \<open>The static generation script (scripts/generate-static.js)\<close>

text \<open>
  The script carries its own copies of the mapping functions. They are named here with
  the suffix \<open>_static\<close>.
\<close>

definition anchors_static :: "(jsnum \<times> jsnum) list" where
  "anchors_static =
     [(Fin (- 50), Fin (- 120)), (Fin (- 30), Fin (- 90)), (Fin (- 5), Fin (- 30)),
      (Fin 0, Fin 0), (Fin 5, Fin 30), (Fin 30, Fin 90), (Fin 50, Fin 120)]"

text \<open>
  The \<open>for\<close> loop over \<open>i < anchors.length - 1\<close>: it visits the consecutive pairs in
  order, returns from the first pair that brackets the clamped value, and the function
  returns 0 when the loop ends without a match.
\<close>

fun anchor_loop :: "(jsnum \<times> jsnum) list \<Rightarrow> jsnum \<Rightarrow> jsnum" where
  "anchor_loop ((p1, a1) # (p2, a2) # rest) clamped =
     (if js_ge clamped p1 \<and> js_le clamped p2 then
        (let t = js_div (js_sub clamped p1) (js_sub p2 p1) in
         js_add a1 (js_mul (easeOutQuad t) (js_sub a2 a1)))
      else anchor_loop ((p2, a2) # rest) clamped)"
| "anchor_loop _ clamped = Fin 0"

definition mapPerformanceToAngle_static :: "jsnum \<Rightarrow> jsnum" where
  "mapPerformanceToAngle_static performancePercent =
     (let clamped = Math_max (Fin (- 50)) (Math_min (Fin 50) performancePercent) in
      anchor_loop anchors_static clamped)"

definition mapBarrierToAngle_static :: "jsnum \<Rightarrow> jsnum" where
  "mapBarrierToAngle_static barrierPercent =
     (let absBarrier = Math_abs barrierPercent in
      js_neg (js_add (Fin 90) (js_mul (js_sub absBarrier (Fin 30)) (Fin 1.5))))"

text \<open>The script's copies of the two date functions.\<close>

definition daysBetween_static ::
  "(string \<Rightarrow> jsnum) \<Rightarrow> date_arg \<Rightarrow> date_arg \<Rightarrow> js_error + jsnum" where
  "daysBetween_static new_Date startDate endDate =
     (let start = string_or_date new_Date startDate;
          end = string_or_date new_Date endDate
      in case call_getTime end of
           Inl err \<Rightarrow> Inl err
         | Inr end_time \<Rightarrow>
             (case call_getTime start of
                Inl err \<Rightarrow> Inl err
              | Inr start_time \<Rightarrow>
                  Inr (js_div (js_sub end_time start_time)
                         (js_mul (js_mul (js_mul (Fin 1000) (Fin 60)) (Fin 60)) (Fin 24)))))"

definition calculateRotationAngle_static ::
  "(string \<Rightarrow> jsnum) \<Rightarrow> date_arg \<Rightarrow> date_arg \<Rightarrow> js_error + jsnum" where
  "calculateRotationAngle_static new_Date startDate currentDate =
     (case daysBetween_static new_Date startDate currentDate of
        Inl err \<Rightarrow> Inl err
      | Inr days \<Rightarrow> Inr (js_mul days ANGLE_PER_DAY))"




section \<open>The dial component's guard on the barrier\<close>

text \<open>
  \<open>DynamicLogo\<close> computes its barrier angle through \<open>Number.isFinite\<close> before it calls
  \<open>mapBarrierToAngle\<close>. The argument is a number here, on which \<open>Number(...)\<close> is the
  identity.
\<close>

fun Number_isFinite :: "jsnum \<Rightarrow> bool" where
  "Number_isFinite (Fin a) = True"
| "Number_isFinite _ = False"

definition barrierAngle :: "jsnum \<Rightarrow> jsnum" where
  "barrierAngle barrier_percent =
     (let num = barrier_percent in
      if \<not> Number_isFinite num then Fin 0 else mapBarrierToAngle num)"

section \<open>Reading the results\<close>

text \<open>The real number that a finite result denotes (0 for the special values).\<close>

fun fin_value :: "jsnum \<Rightarrow> real" where
  "fin_value (Fin a) = a"
| "fin_value _ = 0"

text \<open>
  The fields of an arc command are the pieces between its spaces; \<open>fields_from w s\<close> splits
  \<open>s\<close>, with \<open>w\<close> the reversed field being read. In the command of \<open>describeArc\<close> the
  large-arc flag is field 7 and the sweep flag is field 8, counting from 0.
\<close>

fun fields_from :: "string \<Rightarrow> string \<Rightarrow> string list" where
  "fields_from w [] = [rev w]"
| "fields_from w (c # cs) =
     (if c = CHR '' '' then rev w # fields_from [] cs else fields_from (c # w) cs)"

definition fields :: "string \<Rightarrow> string list" where
  "fields s = fields_from [] s"

definition large_arc_field :: "string \<Rightarrow> string" where
  "large_arc_field path = fields path ! 7"

definition sweep_field :: "string \<Rightarrow> string" where
  "sweep_field path = fields path ! 8"

section \<open>The mappings as the specification words them\<close>

text \<open>
  The anchor table and the eased interpolation of the specification's description of
  \<open>mapPerformanceToAngle\<close>, over the reals.
\<close>

definition spec_performance_anchors :: "(real \<times> real) list" where
  "spec_performance_anchors =
     [(- 50, - 120), (- 30, - 90), (- 5, - 30), (0, 0), (5, 30), (30, 90), (50, 120)]"

definition spec_easeOutQuad :: "real \<Rightarrow> real" where
  "spec_easeOutQuad t = t * (2 - t)"

text \<open>The consecutive pairs of a table: the candidates for a bracketing pair.\<close>

definition segments :: "(real \<times> real) list \<Rightarrow> ((real \<times> real) \<times> (real \<times> real)) list" where
  "segments table = zip table (tl table)"

definition eased_interpolation :: "(real \<times> real) \<times> (real \<times> real) \<Rightarrow> real \<Rightarrow> real" where
  "eased_interpolation seg pct =
     (case seg of ((p1, a1), (p2, a2)) \<Rightarrow>
        a1 + spec_easeOutQuad ((pct - p1) / (p2 - p1)) * (a2 - a1))"

definition linear_interpolation :: "(real \<times> real) \<times> (real \<times> real) \<Rightarrow> real \<Rightarrow> real" where
  "linear_interpolation seg pct =
     (case seg of ((p1, a1), (p2, a2)) \<Rightarrow> a1 + ((pct - p1) / (p2 - p1)) * (a2 - a1))"

definition brackets :: "(real \<times> real) \<times> (real \<times> real) \<Rightarrow> real \<Rightarrow> bool" where
  "brackets seg pct = (case seg of ((p1, a1), (p2, a2)) \<Rightarrow> p1 \<le> pct \<and> pct \<le> p2)"

text \<open>
  The table in the comment above \<open>mapPerformanceToAngle\<close> in the geometry module, which its
  eight pieces follow, and the table of \<open>mapHurdlePercentToAngle\<close>.
\<close>

definition geometry_performance_anchors :: "(real \<times> real) list" where
  "geometry_performance_anchors =
     [(- 50, - 120), (- 30, - 90), (- 15, - 60), (- 5, - 30), (0, 0),
      (5, 30), (15, 60), (30, 90), (50, 120)]"

definition hurdle_anchors :: "(real \<times> real) list" where
  "hurdle_anchors =
     [(50, - 120), (70, - 90), (85, - 60), (95, - 30), (100, 0),
      (105, 30), (115, 60), (130, 90), (150, 120)]"

section \<open>Closed forms on finite inputs\<close>

lemmas js_ops = js_sub_def js_ge_def js_gt_def signed_inf_def Let_def

lemma mapPerformanceToAngle_static_closed_form:
  "mapPerformanceToAngle_static (Fin x) =
     (let c = max (- 50) (min 50 x) in
      Fin (if c \<le> - 30 then - 120 + ((c + 50) / 20) * (2 - (c + 50) / 20) * 30
           else if c \<le> - 5 then - 90 + ((c + 30) / 25) * (2 - (c + 30) / 25) * 60
           else if c \<le> 0 then - 30 + ((c + 5) / 5) * (2 - (c + 5) / 5) * 30
           else if c \<le> 5 then (c / 5) * (2 - c / 5) * 30
           else if c \<le> 30 then 30 + ((c - 5) / 25) * (2 - (c - 5) / 25) * 60
           else 90 + ((c - 30) / 20) * (2 - (c - 30) / 20) * 30))"
  by (simp add: mapPerformanceToAngle_static_def anchors_static_def easeOutQuad_def
      js_ops max_def min_def)

lemma mapPerformanceToAngle_closed_form:
  "mapPerformanceToAngle (Fin x) =
     (let c = max (- 50) (min 50 x) in
      Fin (if c \<le> - 30 then - 90 + ((c + 30) / 20) * 30
           else if c \<le> - 15 then - 60 + ((c + 15) / 15) * 30
           else if c \<le> - 5 then - 30 + ((c + 5) / 10) * 30
           else if c \<le> 5 then (c / 5) * 30
           else if c \<le> 15 then 30 + ((c - 5) / 10) * 30
           else if c \<le> 30 then 60 + ((c - 15) / 15) * 30
           else 90 + ((c - 30) / 20) * 30))"
  by (simp add: mapPerformanceToAngle_def js_ops max_def min_def)

lemma mapHurdlePercentToAngle_closed_form:
  "mapHurdlePercentToAngle (Fin x) =
     (let c = max 50 (min 150 x) in
      Fin (if c \<le> 70 then - 90 + ((c - 70) / 20) * 30
           else if c \<le> 85 then - 60 + ((c - 85) / 15) * 30
           else if c \<le> 95 then - 30 + ((c - 95) / 10) * 30
           else if c \<le> 105 then ((c - 100) / 5) * 30
           else if c \<le> 115 then 30 + ((c - 105) / 10) * 30
           else if c \<le> 130 then 60 + ((c - 115) / 15) * 30
           else 90 + ((c - 130) / 20) * 30))"
  by (simp add: mapHurdlePercentToAngle_def js_ops max_def min_def)



lemma mapHurdlePercentToAngle_finite: "\<exists>a. mapHurdlePercentToAngle (Fin x) = Fin a"
  by (simp add: mapHurdlePercentToAngle_closed_form Let_def)

text \<open>The clamp: the result depends on the clamped input only.\<close>

lemma mapPerformanceToAngle_clamped:
  "mapPerformanceToAngle (Fin x) = mapPerformanceToAngle (Fin (max (- 50) (min 50 x)))"
  by (simp add: mapPerformanceToAngle_closed_form)

lemma mapPerformanceToAngle_static_clamped:
  "mapPerformanceToAngle_static (Fin x)
     = mapPerformanceToAngle_static (Fin (max (- 50) (min 50 x)))"
  by (simp add: mapPerformanceToAngle_static_closed_form)

lemma mapHurdlePercentToAngle_clamped:
  "mapHurdlePercentToAngle (Fin x) = mapHurdlePercentToAngle (Fin (max 50 (min 150 x)))"
  by (simp add: mapHurdlePercentToAngle_closed_form)

text \<open>On a bracketing pair of its table each mapping is the interpolation of that pair.\<close>

lemma mapPerformanceToAngle_static_on_segment:
  assumes "seg \<in> set (segments spec_performance_anchors)" and "brackets seg pct"
  shows "mapPerformanceToAngle_static (Fin pct) = Fin (eased_interpolation seg pct)"
  using assms
  by (auto simp: mapPerformanceToAngle_static_closed_form segments_def
      spec_performance_anchors_def brackets_def eased_interpolation_def
      spec_easeOutQuad_def field_simps)

lemma mapPerformanceToAngle_on_segment:
  assumes "seg \<in> set (segments geometry_performance_anchors)" and "brackets seg pct"
  shows "mapPerformanceToAngle (Fin pct) = Fin (linear_interpolation seg pct)"
  using assms
  by (auto simp: mapPerformanceToAngle_closed_form segments_def
      geometry_performance_anchors_def brackets_def linear_interpolation_def field_simps)

lemma mapHurdlePercentToAngle_on_segment:
  assumes "seg \<in> set (segments hurdle_anchors)" and "brackets seg pct"
  shows "mapHurdlePercentToAngle (Fin pct) = Fin (linear_interpolation seg pct)"
  using assms
  by (auto simp: mapHurdlePercentToAngle_closed_form segments_def
      hurdle_anchors_def brackets_def linear_interpolation_def field_simps)

section \<open>Boundary values and clamping\<close>

text \<open>
  C4. In both copies, \<open>mapPerformanceToAngle\<close> sends 0 to 0, -50 to -120 and 50 to 120.
  An input outside \<open>[-50, 50]\<close> is clamped to the boundary: every finite input gives the
  value of its clamp, so 999 gives the value at 50 and -999 the value at -50.
\<close>

theorem mapPerformanceToAngle_boundary_values:
  "mapPerformanceToAngle (Fin 0) = Fin 0
   \<and> mapPerformanceToAngle (Fin (- 50)) = Fin (- 120)
   \<and> mapPerformanceToAngle (Fin 50) = Fin 120
   \<and> (\<forall>pct. mapPerformanceToAngle (Fin pct)
          = mapPerformanceToAngle (Fin (max (- 50) (min 50 pct))))
   \<and> mapPerformanceToAngle (Fin 999) = mapPerformanceToAngle (Fin 50)
   \<and> mapPerformanceToAngle (Fin (- 999)) = mapPerformanceToAngle (Fin (- 50))
   \<and> mapPerformanceToAngle_static (Fin 0) = Fin 0
   \<and> mapPerformanceToAngle_static (Fin (- 50)) = Fin (- 120)
   \<and> mapPerformanceToAngle_static (Fin 50) = Fin 120
   \<and> (\<forall>pct. mapPerformanceToAngle_static (Fin pct)
          = mapPerformanceToAngle_static (Fin (max (- 50) (min 50 pct))))
   \<and> mapPerformanceToAngle_static (Fin 999) = mapPerformanceToAngle_static (Fin 50)
   \<and> mapPerformanceToAngle_static (Fin (- 999)) = mapPerformanceToAngle_static (Fin (- 50))"
proof -
  have "mapPerformanceToAngle (Fin 0) = Fin 0"
    and "mapPerformanceToAngle (Fin (- 50)) = Fin (- 120)"
    and "mapPerformanceToAngle (Fin 50) = Fin 120"
    and "mapPerformanceToAngle (Fin 999) = mapPerformanceToAngle (Fin 50)"
    and "mapPerformanceToAngle (Fin (- 999)) = mapPerformanceToAngle (Fin (- 50))"
    by (simp_all add: mapPerformanceToAngle_def js_ops)
  moreover have "mapPerformanceToAngle_static (Fin 0) = Fin 0"
    and "mapPerformanceToAngle_static (Fin (- 50)) = Fin (- 120)"
    and "mapPerformanceToAngle_static (Fin 50) = Fin 120"
    and "mapPerformanceToAngle_static (Fin 999) = mapPerformanceToAngle_static (Fin 50)"
    and "mapPerformanceToAngle_static (Fin (- 999)) = mapPerformanceToAngle_static (Fin (- 50))"
    by (simp_all add: mapPerformanceToAngle_static_def anchors_static_def easeOutQuad_def js_ops)
  ultimately show ?thesis
    using mapPerformanceToAngle_clamped mapPerformanceToAngle_static_clamped by blast
qed

section \<open>The performance mapping and its anchor table\<close>

text \<open>
  C1, as stated, at the geometry module: the claim fails. At 10 the pair (5, 30), (30, 90)
  of the seven-anchor table brackets the input and the eased interpolation gives 51.6,
  while \<open>mapPerformanceToAngle\<close> of the geometry module returns 45.
\<close>

theorem mapPerformanceToAngle_not_eased_at_10:
  "((5, 30), (30, 90)) \<in> set (segments spec_performance_anchors)
   \<and> brackets ((5, 30), (30, 90)) 10
   \<and> eased_interpolation ((5, 30), (30, 90)) 10 = 51.6
   \<and> mapPerformanceToAngle (Fin 10) = Fin 45
   \<and> mapPerformanceToAngle (Fin 10) \<noteq> Fin (eased_interpolation ((5, 30), (30, 90)) 10)"
  by (simp add: mapPerformanceToAngle_closed_form segments_def spec_performance_anchors_def
      brackets_def eased_interpolation_def spec_easeOutQuad_def)

text \<open>
  C1, amended. For every \<open>pct\<close> in \<open>[-50, 50]\<close> some pair of the table brackets it. The
  copy of \<open>mapPerformanceToAngle\<close> in the static generation script returns, for every
  bracketing pair of the seven-anchor table, the interpolation of that pair eased by
  \<open>easeOutQuad\<close>. The function of the geometry module returns, for every bracketing pair
  of its nine-anchor table (the seven anchors and (-15, -60), (15, 60)), the plain linear
  interpolation of that pair, without easing.
\<close>

theorem mapPerformanceToAngle_interpolates:
  assumes "- 50 \<le> pct" and "pct \<le> 50"
  shows "(\<exists>seg \<in> set (segments spec_performance_anchors). brackets seg pct)
    \<and> (\<forall>seg \<in> set (segments spec_performance_anchors). brackets seg pct \<longrightarrow>
          mapPerformanceToAngle_static (Fin pct) = Fin (eased_interpolation seg pct))
    \<and> (\<exists>seg \<in> set (segments geometry_performance_anchors). brackets seg pct)
    \<and> (\<forall>seg \<in> set (segments geometry_performance_anchors). brackets seg pct \<longrightarrow>
          mapPerformanceToAngle (Fin pct) = Fin (linear_interpolation seg pct))"
proof -
  have ex7: "\<exists>seg \<in> set (segments spec_performance_anchors). brackets seg pct"
    using assms by (simp add: segments_def spec_performance_anchors_def brackets_def) linarith
  have ex9: "\<exists>seg \<in> set (segments geometry_performance_anchors). brackets seg pct"
    using assms by (simp add: segments_def geometry_performance_anchors_def brackets_def) linarith
  from ex7 ex9 mapPerformanceToAngle_static_on_segment mapPerformanceToAngle_on_segment
  show ?thesis by blast
qed

theorem mapPerformanceToAngle_interpolates_witness:
  "mapPerformanceToAngle_static (Fin 10) = Fin 51.6 \<and> mapPerformanceToAngle (Fin 10) = Fin 45"
proof -
  have range: "- 50 \<le> (10::real)" "(10::real) \<le> 50" by simp_all
  have s7: "((5, 30), (30, 90)) \<in> set (segments spec_performance_anchors)"
    by (simp add: segments_def spec_performance_anchors_def)
  have s9: "((5, 30), (15, 60)) \<in> set (segments geometry_performance_anchors)"
    by (simp add: segments_def geometry_performance_anchors_def)
  have b7: "brackets ((5, 30), (30, 90)) 10" and b9: "brackets ((5, 30), (15, 60)) 10"
    by (simp_all add: brackets_def)
  from mapPerformanceToAngle_interpolates [OF range] s7 b7
  have "mapPerformanceToAngle_static (Fin 10) = Fin (eased_interpolation ((5, 30), (30, 90)) 10)"
    by blast
  moreover from mapPerformanceToAngle_interpolates [OF range] s9 b9
  have "mapPerformanceToAngle (Fin 10) = Fin (linear_interpolation ((5, 30), (15, 60)) 10)"
    by blast
  ultimately show ?thesis
    by (simp add: eased_interpolation_def spec_easeOutQuad_def linear_interpolation_def)
qed

section \<open>The two barrier mappings\<close>

text \<open>
  C2. The script's \<open>mapBarrierToAngle\<close> is the closed form \<open>-(90 + (|pct| - 30) * 1.5)\<close>, the
  geometry module's is \<open>mapPerformanceToAngle\<close>, and the two are not equal: at -20, which is
  no anchor of either table, the first returns -75 and the second -70.
\<close>

theorem mapBarrierToAngle_copies_differ:
  "(\<forall>x. mapBarrierToAngle_static (Fin x) = Fin (- (90 + (\<bar>x\<bar> - 30) * 1.5)))
   \<and> (\<forall>v. mapBarrierToAngle v = mapPerformanceToAngle v)
   \<and> (\<exists>x. x \<notin> set (map fst geometry_performance_anchors)
          \<and> x \<notin> set (map fst spec_performance_anchors)
          \<and> mapBarrierToAngle_static (Fin x) \<noteq> mapBarrierToAngle (Fin x))"
proof -
  have "mapBarrierToAngle_static (Fin (- 20)) = Fin (- 75)"
    by (simp add: mapBarrierToAngle_static_def js_ops)
  moreover have "mapBarrierToAngle (Fin (- 20)) = Fin (- 70)"
    by (simp add: mapBarrierToAngle_def mapPerformanceToAngle_closed_form)
  moreover have "(- 20 :: real) \<notin> set (map fst geometry_performance_anchors)"
    and "(- 20 :: real) \<notin> set (map fst spec_performance_anchors)"
    by (simp_all add: geometry_performance_anchors_def spec_performance_anchors_def)
  ultimately have "\<exists>x. x \<notin> set (map fst geometry_performance_anchors)
      \<and> x \<notin> set (map fst spec_performance_anchors)
      \<and> mapBarrierToAngle_static (Fin x) \<noteq> mapBarrierToAngle (Fin x)"
    by (intro exI [of _ "- 20"]) simp
  moreover have "\<forall>x. mapBarrierToAngle_static (Fin x) = Fin (- (90 + (\<bar>x\<bar> - 30) * 1.5))"
    by (simp add: mapBarrierToAngle_static_def js_ops)
  moreover have "\<forall>v. mapBarrierToAngle v = mapPerformanceToAngle v"
    by (simp add: mapBarrierToAngle_def)
  ultimately show ?thesis by blast
qed

section \<open>Non-finite inputs\<close>

text \<open>
  C3, as stated: the claim fails. On \<open>+Infinity\<close> the clamp of \<open>mapPerformanceToAngle\<close>
  gives 50 and the function returns 120, not 0.
\<close>

theorem mapPerformanceToAngle_infinity_not_zero:
  "mapPerformanceToAngle PosInf = Fin 120 \<and> mapPerformanceToAngle PosInf \<noteq> Fin 0"
  by (simp add: mapPerformanceToAngle_def js_ops)

text \<open>
  C3, amended. Every mapping function returns a number on each of the three non-finite
  inputs (none has an error path), and the number is not always 0. An infinity is clamped
  as any input out of range is: \<open>mapPerformanceToAngle\<close> (both copies), the geometry
  module's \<open>mapBarrierToAngle\<close> and \<open>mapHurdlePercentToAngle\<close> return 120 on \<open>+Infinity\<close>
  and -120 on \<open>-Infinity\<close>. On \<open>NaN\<close> the functions of the geometry module return \<open>NaN\<close>;
  the script's \<open>mapPerformanceToAngle\<close> returns 0. The script's \<open>mapBarrierToAngle\<close> returns
  \<open>-Infinity\<close> on both infinities and \<open>NaN\<close> on \<open>NaN\<close>. The default of 0 is the dial
  component's: its barrier angle is 0 on each non-finite barrier.
\<close>

theorem mapping_functions_on_non_finite:
  "mapPerformanceToAngle PosInf = Fin 120
   \<and> mapPerformanceToAngle NegInf = Fin (- 120)
   \<and> mapPerformanceToAngle NaN = NaN
   \<and> mapBarrierToAngle PosInf = Fin 120
   \<and> mapBarrierToAngle NegInf = Fin (- 120)
   \<and> mapBarrierToAngle NaN = NaN
   \<and> mapHurdlePercentToAngle PosInf = Fin 120
   \<and> mapHurdlePercentToAngle NegInf = Fin (- 120)
   \<and> mapHurdlePercentToAngle NaN = NaN
   \<and> mapPerformanceToAngle_static PosInf = Fin 120
   \<and> mapPerformanceToAngle_static NegInf = Fin (- 120)
   \<and> mapPerformanceToAngle_static NaN = Fin 0
   \<and> mapBarrierToAngle_static PosInf = NegInf
   \<and> mapBarrierToAngle_static NegInf = NegInf
   \<and> mapBarrierToAngle_static NaN = NaN
   \<and> barrierAngle PosInf = Fin 0
   \<and> barrierAngle NegInf = Fin 0
   \<and> barrierAngle NaN = Fin 0"
  by (simp add: mapPerformanceToAngle_def mapBarrierToAngle_def mapHurdlePercentToAngle_def
      mapPerformanceToAngle_static_def anchors_static_def easeOutQuad_def
      mapBarrierToAngle_static_def barrierAngle_def js_ops)

section \<open>Piecewise functions over an anchor table\<close>

text \<open>
  A function that is monotone, or continuous, on two adjacent closed intervals is so on
  their union; a function that agrees on every bracketing pair of a rising table with a
  monotone, or continuous, interpolation of the pair is so from the first anchor to the
  last.
\<close>

lemma mono_on_join:
  fixes f :: "real \<Rightarrow> real"
  assumes "mono_on {a..b} f" and "mono_on {b..c} f"
  shows "mono_on {a..c} f"
proof (rule mono_onI)
  fix r s assume rs: "r \<in> {a..c}" "s \<in> {a..c}" "r \<le> s"
  consider "s \<le> b" | "b \<le> r" | "r \<le> b" "b \<le> s" by linarith
  then show "f r \<le> f s"
  proof cases
    case 1
    with rs show ?thesis by (intro mono_onD [OF assms(1)]) auto
  next
    case 2
    with rs show ?thesis by (intro mono_onD [OF assms(2)]) auto
  next
    case 3
    with rs have "f r \<le> f b" by (intro mono_onD [OF assms(1)]) auto
    moreover from 3 rs have "f b \<le> f s" by (intro mono_onD [OF assms(2)]) auto
    ultimately show ?thesis by linarith
  qed
qed


lemma mono_on_agree:
  fixes g h :: "real \<Rightarrow> real"
  assumes "\<And>x. x \<in> S \<Longrightarrow> g x = h x" and "mono_on S h"
  shows "mono_on S g"
proof (rule mono_onI)
  fix r s assume "r \<in> S" "s \<in> S" "r \<le> s"
  then show "g r \<le> g s" using mono_onD [OF assms(2), of r s] assms(1) by simp
qed


lemma linear_interpolation_mono:
  assumes "p1 < p2" and "a1 \<le> a2"
  shows "mono_on {p1..p2} (linear_interpolation ((p1, a1), (p2, a2)))"
proof (rule mono_onI)
  fix r s assume rs: "r \<in> {p1..p2}" "s \<in> {p1..p2}" "r \<le> s"
  have "(r - p1) / (p2 - p1) \<le> (s - p1) / (p2 - p1)"
    using assms(1) rs(3) by (simp add: divide_right_mono)
  then have "(r - p1) / (p2 - p1) * (a2 - a1) \<le> (s - p1) / (p2 - p1) * (a2 - a1)"
    using assms(2) by (intro mult_right_mono) simp_all
  then show "linear_interpolation ((p1, a1), (p2, a2)) r \<le> linear_interpolation ((p1, a1), (p2, a2)) s"
    by (simp add: linear_interpolation_def)
qed



lemma segments_Cons2: "segments (x # y # zs) = (x, y) # segments (y # zs)"
  by (simp add: segments_def)

lemma piecewise_mono_on:
  fixes g :: "real \<Rightarrow> real"
    and interp :: "(real \<times> real) \<times> (real \<times> real) \<Rightarrow> real \<Rightarrow> real"
  assumes piece: "\<And>p1 a1 p2 a2. p1 < p2 \<Longrightarrow> a1 \<le> a2 \<Longrightarrow>
      mono_on {p1..p2} (interp ((p1, a1), (p2, a2)))"
    and agree: "\<And>seg x. seg \<in> set (segments table) \<Longrightarrow> brackets seg x \<Longrightarrow> g x = interp seg x"
    and rising: "\<And>p1 a1 p2 a2. ((p1, a1), (p2, a2)) \<in> set (segments table) \<Longrightarrow>
      p1 < p2 \<and> a1 \<le> a2"
    and "table \<noteq> []"
  shows "mono_on {fst (hd table)..fst (last table)} g"
  using agree rising \<open>table \<noteq> []\<close>
proof (induction table rule: induct_list012)
  case 1
  then show ?case by simp
next
  case (2 x)
  show ?case by (rule mono_onI) simp
next
  case (3 x y zs)
  obtain p1 a1 p2 a2 where xy: "x = (p1, a1)" "y = (p2, a2)" by (cases x, cases y) blast
  have first: "((p1, a1), (p2, a2)) \<in> set (segments (x # y # zs))"
    by (simp add: segments_Cons2 xy)
  from "3.prems"(2) [OF first] have up: "p1 < p2" "a1 \<le> a2" by simp_all
  have "g r = interp ((p1, a1), (p2, a2)) r" if "r \<in> {p1..p2}" for r
    using "3.prems"(1) [OF first, of r] that by (simp add: brackets_def)
  then have left: "mono_on {p1..p2} g"
    using piece [OF up] by (rule mono_on_agree)
  have right: "mono_on {fst (hd (y # zs))..fst (last (y # zs))} g"
  proof (rule "3.IH"(2))
    show "g r = interp seg r" if "seg \<in> set (segments (y # zs))" "brackets seg r" for seg r
      using "3.prems"(1) [of seg r] that by (simp add: segments_Cons2)
    show "q1 < q2 \<and> b1 \<le> b2" if "((q1, b1), (q2, b2)) \<in> set (segments (y # zs))" for q1 b1 q2 b2
      using "3.prems"(2) [of q1 b1 q2 b2] that by (simp add: segments_Cons2)
    show "y # zs \<noteq> []" by simp
  qed
  from mono_on_join [OF left] right show ?case by (simp add: xy)
qed


lemma rising_tables:
  "((p1, a1), (p2, a2)) \<in> set (segments spec_performance_anchors) \<Longrightarrow> p1 < p2 \<and> a1 \<le> a2"
  "((p1, a1), (p2, a2)) \<in> set (segments geometry_performance_anchors) \<Longrightarrow> p1 < p2 \<and> a1 \<le> a2"
  "((p1, a1), (p2, a2)) \<in> set (segments hurdle_anchors) \<Longrightarrow> p1 < p2 \<and> a1 \<le> a2"
  by (auto simp: segments_def spec_performance_anchors_def geometry_performance_anchors_def
      hurdle_anchors_def)




lemma mapHurdlePercentToAngle_mono_on:
  "mono_on {50..150} (\<lambda>x. fin_value (mapHurdlePercentToAngle (Fin x)))"
proof -
  have "mono_on {fst (hd hurdle_anchors)..fst (last hurdle_anchors)}
      (\<lambda>x. fin_value (mapHurdlePercentToAngle (Fin x)))"
  proof (rule piecewise_mono_on [where interp = linear_interpolation])
    show "mono_on {p1..p2} (linear_interpolation ((p1, a1), (p2, a2)))"
      if "p1 < p2" "a1 \<le> a2" for p1 a1 p2 a2
      using that by (rule linear_interpolation_mono)
    show "fin_value (mapHurdlePercentToAngle (Fin x)) = linear_interpolation seg x"
      if "seg \<in> set (segments hurdle_anchors)" "brackets seg x" for seg x
      using mapHurdlePercentToAngle_on_segment [OF that] by simp
    show "p1 < p2 \<and> a1 \<le> a2"
      if "((p1, a1), (p2, a2)) \<in> set (segments hurdle_anchors)" for p1 a1 p2 a2
      using that by (rule rising_tables)
    show "hurdle_anchors \<noteq> []" by (simp add: hurdle_anchors_def)
  qed
  then show ?thesis by (simp add: hurdle_anchors_def)
qed



lemma js_le_of_mono_on:
  assumes "mono_on S (\<lambda>x. fin_value (f (Fin x)))" and "\<And>x. \<exists>a. f (Fin x) = Fin a"
    and "x \<in> S" and "y \<in> S" and "x \<le> y"
  shows "js_le (f (Fin x)) (f (Fin y))"
proof -
  obtain a b where ab: "f (Fin x) = Fin a" "f (Fin y) = Fin b" using assms(2) by blast
  from mono_onD [OF assms(1,3,4,5)] have "a \<le> b" by (simp add: ab)
  then show ?thesis by (simp add: ab)
qed

section \<open>Rounding: representable numbers and evaluation\<close>

text \<open>
  A number \<open>m * 2^k\<close> with \<open>|m| < 2^53\<close>, \<open>k \<ge> -1074\<close> and magnitude below \<open>2^1024\<close> is a
  double and rounds to itself. Any other number is rounded in its binade.
\<close>

lemma binade_eq:
  assumes "2 powi e \<le> \<bar>x\<bar>" and "\<bar>x\<bar> < 2 powi (e + 1)"
  shows "binade x = e"
proof -
  have "(0::real) < 2 powi e" by simp
  with assms(1) have pos: "0 < \<bar>x\<bar>" by linarith
  have "(2::real) powr real_of_int e = 2 powi e"
    by (simp add: powr_real_of_int')
  moreover have "(2::real) powr (real_of_int e + 1) = 2 powi (e + 1)"
    using powr_real_of_int' [of "2::real" "e + 1"] by simp
  ultimately have "(2::real) powr real_of_int e \<le> \<bar>x\<bar> \<and> \<bar>x\<bar> < 2 powr (real_of_int e + 1)"
    using assms by simp
  then show ?thesis
    unfolding binade_def using floor_log_eq_powr_iff [OF pos, of 2 e] by simp
qed

lemma binade_less:
  assumes "x \<noteq> 0" and "\<bar>x\<bar> < 2 powi n"
  shows "binade x < n"
proof -
  have pos: "0 < \<bar>x\<bar>" using assms(1) by simp
  have "log 2 \<bar>x\<bar> < log 2 (2 powi n)"
    using assms(2) pos by simp
  also have "log 2 (2 powi n) = real_of_int n"
    by (simp add: powr_real_of_int' [symmetric] del: powr_real_of_int')
  finally show ?thesis unfolding binade_def by linarith
qed

lemma round_half_even_of_int [simp]: "round_half_even (of_int n) = n"
  by (simp add: round_half_even_def)

lemma binary64_representable:
  assumes x: "x = of_int m * 2 powi k" and m: "\<bar>m\<bar> < 2 ^ 53" and k: "- 1074 \<le> k"
    and range: "\<bar>x\<bar> < 2 powi 1024"
  shows "binary64 x = Fin x"
proof (cases "x = 0")
  case True
  then show ?thesis by (simp add: binary64_def)
next
  case False
  have "\<bar>x\<bar> = of_int \<bar>m\<bar> * 2 powi k" by (simp add: x abs_mult)
  also have "\<dots> < 2 ^ 53 * 2 powi k"
    using m by (intro mult_strict_right_mono) (simp_all add: of_int_less_iff [of "\<bar>m\<bar>" "2 ^ 53", simplified])
  also have "\<dots> = 2 powi (k + 53)" by (simp add: power_int_add)
  finally have "binade x < k + 53" using binade_less [OF False] by simp
  then have q: "max (binade x) (- 1022) - 52 \<le> k" using k by simp
  define d where "d = k - (max (binade x) (- 1022) - 52)"
  have d: "0 \<le> d" using q by (simp add: d_def)
  have "2 powi k = 2 powi d * quantum x"
    by (simp add: quantum_def d_def power_int_add [symmetric])
  then have xq: "x = of_int (m * 2 ^ nat d) * quantum x"
    using d by (simp add: x power_int_nonneg_exp)
  have qpos: "0 < quantum x" by (simp add: quantum_def)
  then have "x / quantum x = of_int (m * 2 ^ nat d)"
    using xq by (simp add: field_simps)
  then have "of_int (round_half_even (x / quantum x)) * quantum x = x"
    using xq by (simp only: round_half_even_of_int) 
  then show ?thesis using False range by (simp add: binary64_def nearest_double_def)
qed

lemma binary64_eq:
  assumes "2 powi e \<le> \<bar>x\<bar>" and "\<bar>x\<bar> < 2 powi (e + 1)" and "- 1022 \<le> e"
    and "round_half_even (x / 2 powi (e - 52)) = n"
    and "\<bar>of_int n * 2 powi (e - 52)\<bar> < (2::real) powi 1024"
  shows "binary64 x = Fin (of_int n * 2 powi (e - 52))"
proof -
  have "(0::real) < 2 powi e" by simp
  with assms(1) have "0 < \<bar>x\<bar>" by linarith
  then have "x \<noteq> 0" by simp
  moreover have "quantum x = 2 powi (e - 52)"
    using binade_eq [OF assms(1,2)] assms(3) by (simp add: quantum_def)
  ultimately show ?thesis using assms(4,5) by (simp add: binary64_def nearest_double_def)
qed

lemma binary64_of_int:
  assumes "\<bar>m\<bar> < 2 ^ 53"
  shows "binary64 (of_int m) = Fin (of_int m)"
proof (rule binary64_representable [where m = m and k = 0])
  show "real_of_int m = of_int m * 2 powi 0" by simp
  show "\<bar>m\<bar> < 2 ^ 53" by fact
  show "- 1074 \<le> (0::int)" by simp
  have "\<bar>real_of_int m\<bar> < 2 ^ 53" using assms by (simp add: of_int_less_iff [of "\<bar>m\<bar>" "2 ^ 53", simplified] flip: of_int_abs)
  also have "(2::real) ^ 53 < 2 powi 1024" by simp
  finally show "\<bar>real_of_int m\<bar> < 2 powi 1024" .
qed


lemma fl_Fin:
  "fl_add (Fin a) (Fin b) = binary64 (a + b)"
  "fl_sub (Fin a) (Fin b) = binary64 (a - b)"
  "fl_mul (Fin a) (Fin b) = binary64 (a * b)"
  "b \<noteq> 0 \<Longrightarrow> fl_div (Fin a) (Fin b) = binary64 (a / b)"
  by (simp_all add: fl_add_def fl_sub_def fl_mul_def fl_div_def js_sub_def)


lemma binary64_small_ints:
  "binary64 0 = Fin 0"
  "binary64 1 = Fin 1"
  "binary64 (- 1) = Fin (- 1)"
  "(numeral n :: int) < 2 ^ 53 \<Longrightarrow> binary64 (numeral n) = Fin (numeral n)"
  "(numeral n :: int) < 2 ^ 53 \<Longrightarrow> binary64 (- numeral n) = Fin (- numeral n)"
  using binary64_of_int [of 0] binary64_of_int [of 1] binary64_of_int [of "- 1"]
    binary64_of_int [of "numeral n"] binary64_of_int [of "- numeral n"]
  by simp_all

section \<open>Rounding is monotone\<close>

text \<open>
  Rounding to the nearest double keeps the order of its arguments, and so do the rounded
  addition of a constant, subtraction of a constant, and multiplication and division by a
  positive constant.
\<close>

lemma round_half_even_mono:
  assumes "x \<le> y"
  shows "round_half_even x \<le> round_half_even y"
proof -
  have fl: "\<lfloor>x\<rfloor> \<le> \<lfloor>y\<rfloor>" using assms by (rule floor_mono)
  show ?thesis
  proof (cases "\<lfloor>x\<rfloor> = \<lfloor>y\<rfloor>")
    case True
    then show ?thesis using assms by (auto simp: round_half_even_def Let_def)
  next
    case False
    with fl have "\<lfloor>x\<rfloor> + 1 \<le> \<lfloor>y\<rfloor>" by simp
    moreover have "round_half_even x \<le> \<lfloor>x\<rfloor> + 1" by (simp add: round_half_even_def Let_def)
    moreover have "\<lfloor>y\<rfloor> \<le> round_half_even y" by (simp add: round_half_even_def Let_def)
    ultimately show ?thesis by linarith
  qed
qed

lemma round_half_even_minus: "round_half_even (- x) = - round_half_even x"
proof (cases "x \<in> \<int>")
  case True
  then obtain n where "x = of_int n" by (auto elim: Ints_cases)
  then show ?thesis using round_half_even_of_int [of "- n"] by simp
next
  case False
  have ne: "of_int \<lfloor>x\<rfloor> \<noteq> x" using False by (metis Ints_of_int)
  then have fl: "\<lfloor>- x\<rfloor> = - \<lfloor>x\<rfloor> - 1"
    by (auto simp: floor_minus ceiling_altdef)
  from ne have lt: "of_int \<lfloor>x\<rfloor> < x" using of_int_floor_le [of x] by linarith
  show ?thesis
    unfolding round_half_even_def Let_def fl
    using lt by (auto simp: algebra_simps)
qed

lemma binade_bounds:
  assumes "x \<noteq> 0"
  shows "2 powi binade x \<le> \<bar>x\<bar>" and "\<bar>x\<bar> < 2 powi (binade x + 1)"
proof -
  have pos: "0 < \<bar>x\<bar>" using assms by simp
  have "(2::real) powr real_of_int (binade x) \<le> \<bar>x\<bar> \<and> \<bar>x\<bar> < 2 powr (real_of_int (binade x) + 1)"
    using floor_log_eq_powr_iff [OF pos, of 2 "binade x"] by (simp add: binade_def)
  moreover have "(2::real) powr real_of_int (binade x) = 2 powi binade x"
    by (simp add: powr_real_of_int')
  moreover have "(2::real) powr (real_of_int (binade x) + 1) = 2 powi (binade x + 1)"
    using powr_real_of_int' [of "2::real" "binade x + 1"] by simp
  ultimately show "2 powi binade x \<le> \<bar>x\<bar>" and "\<bar>x\<bar> < 2 powi (binade x + 1)" by simp_all
qed

lemma binade_mono:
  assumes "x \<noteq> 0" and "\<bar>x\<bar> \<le> \<bar>y\<bar>"
  shows "binade x \<le> binade y"
proof -
  have "0 < \<bar>x\<bar>" using assms(1) by simp
  then have "log 2 \<bar>x\<bar> \<le> log 2 \<bar>y\<bar>" using assms(2) by simp
  then show ?thesis unfolding binade_def by (rule floor_mono)
qed

lemma pow2_split: "(2::real) powi a * 2 powi b = 2 powi (a + b)"
  by (simp add: power_int_add)

lemma quantum_pos [simp]: "0 < quantum x"
  by (simp add: quantum_def)

lemma quantum_nonneg [simp]: "0 \<le> quantum x"
  by (simp add: quantum_def)

lemma quantum_minus [simp]: "quantum (- x) = quantum x"
  by (simp add: quantum_def binade_def)

lemma nearest_minus: "nearest_double (- x) = - nearest_double x"
  by (simp add: nearest_double_def round_half_even_minus)

lemma nearest_nonneg:
  assumes "0 \<le> x"
  shows "0 \<le> nearest_double x"
proof -
  have "0 \<le> x / quantum x" using assms by (intro divide_nonneg_nonneg) simp_all
  then have "round_half_even 0 \<le> round_half_even (x / quantum x)"
    by (rule round_half_even_mono)
  then have "0 \<le> round_half_even (x / quantum x)"
    using round_half_even_of_int [of 0] by simp
  then show ?thesis by (simp add: nearest_double_def)
qed

lemma nearest_upper:
  assumes "0 < x"
  shows "nearest_double x \<le> 2 powi (max (binade x) (- 1022) + 1)"
proof -
  let ?E = "max (binade x) (- 1022)"
  have x0: "x \<noteq> 0" using assms by simp
  have "x < 2 powi (binade x + 1)" using binade_bounds(2) [OF x0] assms by simp
  also have "\<dots> \<le> 2 powi (?E + 1)" by (intro power_int_increasing) simp_all
  finally have "x \<le> 2 powi (?E + 1)" by simp
  then have "x / quantum x \<le> 2 powi (?E + 1) / quantum x"
    by (rule divide_right_mono) simp
  moreover have "2 powi (?E + 1) / quantum x = (2::real) powi 53"
    by (simp add: quantum_def power_int_diff [symmetric])
  moreover have "(2::real) powi 53 = of_int (2 ^ 53)" by simp
  ultimately have "round_half_even (x / quantum x) \<le> round_half_even (of_int (2 ^ 53))"
    by (intro round_half_even_mono) simp
  then have "round_half_even (x / quantum x) \<le> 2 ^ 53"
    by (simp only: round_half_even_of_int)
  then have "of_int (round_half_even (x / quantum x)) \<le> (2::real) ^ 53"
    by (metis of_int_le_iff of_int_numeral of_int_power)
  then have "nearest_double x \<le> 2 ^ 53 * quantum x"
    unfolding nearest_double_def by (intro mult_right_mono) simp_all
  also have "(2::real) ^ 53 * quantum x = 2 powi 53 * 2 powi (?E - 52)"
    by (simp add: quantum_def)
  also have "\<dots> = 2 powi (?E + 1)"
    using pow2_split [of 53 "?E - 52"] by (simp add: add.commute)
  finally show ?thesis .
qed

lemma nearest_lower:
  assumes "0 < x" and "- 1022 \<le> binade x"
  shows "2 powi binade x \<le> nearest_double x"
proof -
  have x0: "x \<noteq> 0" using assms by simp
  have q: "quantum x = 2 powi (binade x - 52)" using assms(2) by (simp add: quantum_def)
  have "2 powi binade x \<le> x" using binade_bounds(1) [OF x0] assms by simp
  then have "2 powi binade x / quantum x \<le> x / quantum x"
    by (rule divide_right_mono) simp
  moreover have "2 powi binade x / quantum x = (2::real) powi 52"
    by (simp add: q power_int_diff [symmetric])
  moreover have "(2::real) powi 52 = of_int (2 ^ 52)" by simp
  ultimately have "round_half_even (of_int (2 ^ 52)) \<le> round_half_even (x / quantum x)"
    by (intro round_half_even_mono) simp
  then have "2 ^ 52 \<le> round_half_even (x / quantum x)"
    by (simp only: round_half_even_of_int)
  then have "(2::real) ^ 52 \<le> of_int (round_half_even (x / quantum x))"
    by (metis of_int_le_iff of_int_numeral of_int_power)
  then have "2 ^ 52 * quantum x \<le> nearest_double x"
    unfolding nearest_double_def by (intro mult_right_mono) simp_all
  moreover have "(2::real) ^ 52 * quantum x = 2 powi 52 * 2 powi (binade x - 52)"
    by (simp add: q)
  moreover have "(2::real) powi 52 * 2 powi (binade x - 52) = 2 powi binade x"
    using pow2_split [of 52 "binade x - 52"] by simp
  ultimately show ?thesis by simp
qed

lemma nearest_pos_mono:
  assumes "0 < x" and "x \<le> y"
  shows "nearest_double x \<le> nearest_double y"
proof -
  let ?Ex = "max (binade x) (- 1022)" and ?Ey = "max (binade y) (- 1022)"
  have x0: "x \<noteq> 0" and y0: "0 < y" using assms by simp_all
  have "binade x \<le> binade y" using binade_mono [OF x0, of y] assms by simp
  then have le: "?Ex \<le> ?Ey" by simp
  show ?thesis
  proof (cases "?Ex = ?Ey")
    case True
    then have q: "quantum x = quantum y" by (simp add: quantum_def)
    have "x / quantum y \<le> y / quantum y" using assms(2) by (rule divide_right_mono) simp
    then have "round_half_even (x / quantum y) \<le> round_half_even (y / quantum y)"
      by (rule round_half_even_mono)
    then show ?thesis unfolding nearest_double_def q by (intro mult_right_mono) simp_all
  next
    case False
    with le have lt: "?Ex < ?Ey" by linarith
    have normal: "- 1022 \<le> binade y" using lt by linarith
    have Ey: "?Ey = binade y" using lt by linarith
    have "nearest_double x \<le> 2 powi (?Ex + 1)" using assms(1) by (rule nearest_upper)
    also have "\<dots> \<le> 2 powi binade y"
    proof (rule power_int_increasing)
      show "?Ex + 1 \<le> binade y" using lt Ey by linarith
    qed simp
    also have "\<dots> \<le> nearest_double y" using y0 normal by (rule nearest_lower)
    finally show ?thesis .
  qed
qed

lemma nearest_mono:
  assumes "x \<le> y"
  shows "nearest_double x \<le> nearest_double y"
proof -
  consider "0 < x" | "x \<le> 0" "0 \<le> y" | "y < 0" by linarith
  then show ?thesis
  proof cases
    case 1
    then show ?thesis using assms by (rule nearest_pos_mono)
  next
    case 2
    have "nearest_double x = - nearest_double (- x)" by (simp add: nearest_minus)
    moreover have "0 \<le> nearest_double (- x)" using 2(1) by (intro nearest_nonneg) simp
    moreover have "0 \<le> nearest_double y" using 2(2) by (rule nearest_nonneg)
    ultimately show ?thesis by linarith
  next
    case 3
    then have "nearest_double (- y) \<le> nearest_double (- x)" using assms by (intro nearest_pos_mono) simp_all
    then show ?thesis by (simp add: nearest_minus)
  qed
qed

lemma binary64_cases:
  "(binary64 x = Fin (nearest_double x) \<and> \<bar>nearest_double x\<bar> < 2 powi 1024)
   \<or> (binary64 x = PosInf \<and> 2 powi 1024 \<le> nearest_double x)
   \<or> (binary64 x = NegInf \<and> nearest_double x \<le> - (2 powi 1024))"
proof -
  have zero: "nearest_double 0 = 0" using round_half_even_of_int [of 0] by (simp add: nearest_double_def)
  consider "x = 0" | "0 < x" | "x < 0" by linarith
  then show ?thesis
  proof cases
    case 1
    then show ?thesis by (simp add: binary64_def zero)
  next
    case 2
    then have "0 \<le> nearest_double x" by (intro nearest_nonneg) simp
    then have "\<bar>nearest_double x\<bar> = nearest_double x" by simp
    with 2 show ?thesis by (simp add: binary64_def signed_inf_def)
  next
    case 3
    then have "0 \<le> nearest_double (- x)" by (intro nearest_nonneg) simp
    then have "\<bar>nearest_double x\<bar> = - nearest_double x" by (simp add: nearest_minus)
    with 3 show ?thesis by (auto simp: binary64_def signed_inf_def)
  qed
qed

lemma binary64_mono:
  assumes "x \<le> y"
  shows "js_le (binary64 x) (binary64 y)"
proof -
  define top :: real where "top = 2 powi 1024"
  have top: "0 < top" by (simp add: top_def)
  have n: "nearest_double x \<le> nearest_double y" using assms by (rule nearest_mono)
  consider (fin) "binary64 x = Fin (nearest_double x)" "\<bar>nearest_double x\<bar> < top"
    | (pos) "binary64 x = PosInf" "top \<le> nearest_double x"
    | (neg) "binary64 x = NegInf"
    using binary64_cases [of x] unfolding top_def by blast
  then show ?thesis
  proof cases
    case fin
    consider "binary64 y = Fin (nearest_double y)" | "binary64 y = PosInf"
      | "binary64 y = NegInf" "nearest_double y \<le> - top"
      using binary64_cases [of y] unfolding top_def by blast
    then show ?thesis
    proof cases
      case 1
      with fin n show ?thesis by simp
    next
      case 2
      with fin show ?thesis by simp
    next
      case 3
      with fin n have False by linarith
      then show ?thesis ..
    qed
  next
    case pos
    consider "binary64 y = Fin (nearest_double y)" "\<bar>nearest_double y\<bar> < top" | "binary64 y = PosInf"
      | "binary64 y = NegInf" "nearest_double y \<le> - top"
      using binary64_cases [of y] unfolding top_def by blast
    then show ?thesis
    proof cases
      case 1
      with pos n have False by linarith
      then show ?thesis ..
    next
      case 2
      with pos show ?thesis by simp
    next
      case 3
      with pos n top have False by linarith
      then show ?thesis ..
    qed
  next
    case neg
    have "binary64 y \<noteq> NaN" using binary64_cases [of y] by auto
    with neg show ?thesis by (cases "binary64 y") simp_all
  qed
qed

lemma binary64_not_NaN [simp]: "binary64 x \<noteq> NaN"
  using binary64_cases [of x] by auto



lemma js_le_between:
  assumes "js_le (Fin a) u" and "js_le u (Fin b)"
  shows "\<exists>r. u = Fin r \<and> a \<le> r \<and> r \<le> b"
  using assms by (cases u) simp_all


section \<open>Monotonicity and continuity of the performance mapping\<close>














section \<open>The hurdle mapping\<close>

text \<open>
  C8. \<open>mapHurdlePercentToAngle\<close> clamps its input to \<open>[50, 150]\<close>: the result is that of the
  clamped input. Every input in \<open>[50, 150]\<close> has a bracketing pair in the table (50,-120),
  (70,-90), (85,-60), (95,-30), (100,0), (105,30), (115,60), (130,90), (150,120), and on
  every bracketing pair the result is the plain linear interpolation of the pair. At 100
  the angle is 0, at 50 it is -120, at 150 it is 120, and the function is monotonic
  non-decreasing on \<open>[50, 150]\<close>.
\<close>

theorem mapHurdlePercentToAngle_piecewise_linear:
  "(\<forall>pct. mapHurdlePercentToAngle (Fin pct)
        = mapHurdlePercentToAngle (Fin (max 50 (min 150 pct))))
   \<and> (\<forall>pct. 50 \<le> pct \<and> pct \<le> 150 \<longrightarrow>
        (\<exists>seg \<in> set (segments hurdle_anchors). brackets seg pct))
   \<and> (\<forall>pct. \<forall>seg \<in> set (segments hurdle_anchors). brackets seg pct \<longrightarrow>
        mapHurdlePercentToAngle (Fin pct) = Fin (linear_interpolation seg pct))
   \<and> mapHurdlePercentToAngle (Fin 100) = Fin 0
   \<and> mapHurdlePercentToAngle (Fin 50) = Fin (- 120)
   \<and> mapHurdlePercentToAngle (Fin 150) = Fin 120
   \<and> (\<forall>pct1 pct2. 50 \<le> pct1 \<and> pct1 \<le> pct2 \<and> pct2 \<le> 150 \<longrightarrow>
        js_le (mapHurdlePercentToAngle (Fin pct1)) (mapHurdlePercentToAngle (Fin pct2)))"
proof -
  have clamp: "\<forall>pct. mapHurdlePercentToAngle (Fin pct)
      = mapHurdlePercentToAngle (Fin (max 50 (min 150 pct)))"
    using mapHurdlePercentToAngle_clamped by blast
  have ex: "\<exists>seg \<in> set (segments hurdle_anchors). brackets seg pct"
    if "50 \<le> pct \<and> pct \<le> 150" for pct
    using that by (simp add: segments_def hurdle_anchors_def brackets_def) linarith
  have "values": "mapHurdlePercentToAngle (Fin 100) = Fin 0"
    "mapHurdlePercentToAngle (Fin 50) = Fin (- 120)"
    "mapHurdlePercentToAngle (Fin 150) = Fin 120"
    by (simp_all add: mapHurdlePercentToAngle_closed_form)
  have mono: "js_le (mapHurdlePercentToAngle (Fin pct1)) (mapHurdlePercentToAngle (Fin pct2))"
    if "50 \<le> pct1 \<and> pct1 \<le> pct2 \<and> pct2 \<le> 150" for pct1 pct2
    using mapHurdlePercentToAngle_mono_on mapHurdlePercentToAngle_finite
    by (rule js_le_of_mono_on) (use that in simp_all)
  from clamp ex "values" mono mapHurdlePercentToAngle_on_segment show ?thesis by blast
qed

theorem mapHurdlePercentToAngle_piecewise_linear_witness:
  "mapHurdlePercentToAngle (Fin 60) = Fin (- 105)
   \<and> js_le (mapHurdlePercentToAngle (Fin 60)) (mapHurdlePercentToAngle (Fin 110))
   \<and> (\<exists>seg \<in> set (segments hurdle_anchors). brackets seg 60)"
proof -
  have seg: "((50, - 120), (70, - 90)) \<in> set (segments hurdle_anchors)"
    by (simp add: segments_def hurdle_anchors_def)
  have br: "brackets ((50, - 120), (70, - 90)) 60" by (simp add: brackets_def)
  have order: "50 \<le> (60 :: real) \<and> (60 :: real) \<le> 110 \<and> (110 :: real) \<le> 150" by simp
  have range: "50 \<le> (60 :: real) \<and> (60 :: real) \<le> 150" by simp
  from mapHurdlePercentToAngle_piecewise_linear seg br
  have "mapHurdlePercentToAngle (Fin 60) = Fin (linear_interpolation ((50, - 120), (70, - 90)) 60)"
    by blast
  moreover from mapHurdlePercentToAngle_piecewise_linear order
  have "js_le (mapHurdlePercentToAngle (Fin 60)) (mapHurdlePercentToAngle (Fin 110))"
    by blast
  moreover from mapHurdlePercentToAngle_piecewise_linear range
  have "\<exists>seg \<in> set (segments hurdle_anchors). brackets seg 60"
    by blast
  ultimately show ?thesis by (simp add: linear_interpolation_def)
qed

section \<open>Angle normalisation\<close>

text \<open>
  On an integer angle of magnitude below \<open>2^53\<close> the subtraction and the addition of 360
  are exact and both loops of \<open>normalizeAngle\<close> end: the result lies in the closed interval
  \<open>[-180, 180]\<close> and differs from the input by a multiple of 360.
\<close>

lemma while_above_180_int:
  assumes "\<bar>n\<bar> < 2 ^ 53"
  shows "\<exists>y k. while_above_180 (Fin (of_int n)) = Some (Fin (of_int y)) \<and> y \<le> 180
     \<and> (n \<le> 180 \<longrightarrow> y = n) \<and> (180 < n \<longrightarrow> - 180 < y) \<and> n = y + 360 * int k
     \<and> \<bar>y\<bar> < 2 ^ 53"
  using assms
proof (induction "nat (n - 180)" arbitrary: n rule: less_induct)
  case less
  show ?case
  proof (cases "180 < n")
    case False
    then have "while_above_180 (Fin (of_int n)) = Some (Fin (of_int n))"
      by (subst while_above_180.simps) (simp add: js_ops)
    with False less.prems show ?thesis by (intro exI [of _ n] exI [of _ 0]) simp
  next
    case True
    have small: "\<bar>n - 360\<bar> < 2 ^ 53" using True less.prems by simp
    have "fl_sub (Fin (of_int n)) (Fin 360) = binary64 (of_int (n - 360))"
      by (simp add: fl_Fin)
    then have "fl_sub (Fin (of_int n)) (Fin 360) = Fin (of_int (n - 360))"
      using binary64_of_int [OF small] by simp
    then have step: "while_above_180 (Fin (of_int n)) = while_above_180 (Fin (of_int (n - 360)))"
      using True by (subst while_above_180.simps) (simp add: js_ops)
    have "nat (n - 360 - 180) < nat (n - 180)" using True by simp
    from less.hyps [OF this small] obtain y k where
      y: "while_above_180 (Fin (of_int (n - 360))) = Some (Fin (of_int y))" "y \<le> 180"
         "n - 360 \<le> 180 \<longrightarrow> y = n - 360" "180 < n - 360 \<longrightarrow> - 180 < y"
         "n - 360 = y + 360 * int k" "\<bar>y\<bar> < 2 ^ 53"
      by blast
    have "n = y + 360 * int (Suc k)" using y(5) by simp
    moreover have "- 180 < y" using y(3,4) True by (cases "n - 360 \<le> 180") auto
    ultimately show ?thesis
      using step y(1,2,6) True by (intro exI [of _ y] exI [of _ "Suc k"]) simp
  qed
qed

lemma while_below_minus_180_int:
  assumes "\<bar>n\<bar> < 2 ^ 53"
  shows "\<exists>y k. while_below_minus_180 (Fin (of_int n)) = Some (Fin (of_int y)) \<and> - 180 \<le> y
     \<and> (- 180 \<le> n \<longrightarrow> y = n) \<and> (n < - 180 \<longrightarrow> y < 180) \<and> y = n + 360 * int k"
  using assms
proof (induction "nat (- 180 - n)" arbitrary: n rule: less_induct)
  case less
  show ?case
  proof (cases "n < - 180")
    case False
    then have "while_below_minus_180 (Fin (of_int n)) = Some (Fin (of_int n))"
      by (subst while_below_minus_180.simps) simp
    with False show ?thesis by (intro exI [of _ n] exI [of _ 0]) simp
  next
    case True
    have small: "\<bar>n + 360\<bar> < 2 ^ 53" using True less.prems by simp
    have "fl_add (Fin (of_int n)) (Fin 360) = binary64 (of_int (n + 360))"
      by (simp add: fl_Fin)
    then have "fl_add (Fin (of_int n)) (Fin 360) = Fin (of_int (n + 360))"
      using binary64_of_int [OF small] by simp
    then have step:
      "while_below_minus_180 (Fin (of_int n)) = while_below_minus_180 (Fin (of_int (n + 360)))"
      using True by (subst while_below_minus_180.simps) simp
    have "nat (- 180 - (n + 360)) < nat (- 180 - n)" using True by simp
    from less.hyps [OF this small] obtain y k where
      y: "while_below_minus_180 (Fin (of_int (n + 360))) = Some (Fin (of_int y))" "- 180 \<le> y"
         "- 180 \<le> n + 360 \<longrightarrow> y = n + 360" "n + 360 < - 180 \<longrightarrow> y < 180"
         "y = n + 360 + 360 * int k"
      by blast
    have "y = n + 360 * int (Suc k)" using y(5) by simp
    moreover have "y < 180" using y(3,4) True by (cases "- 180 \<le> n + 360") auto
    ultimately show ?thesis
      using step y(1,2) True by (intro exI [of _ y] exI [of _ "Suc k"]) simp
  qed
qed

lemma normalizeAngle_int:
  assumes "\<bar>n\<bar> < 2 ^ 53"
  shows "\<exists>y k. normalizeAngle (Fin (of_int n)) = Some (Fin (of_int y)) \<and> - 180 \<le> y \<and> y \<le> 180
     \<and> n - y = 360 * k"
proof -
  obtain y j where y: "while_above_180 (Fin (of_int n)) = Some (Fin (of_int y))" "y \<le> 180"
      "n \<le> 180 \<longrightarrow> y = n" "180 < n \<longrightarrow> - 180 < y" "n = y + 360 * int j" "\<bar>y\<bar> < 2 ^ 53"
    using while_above_180_int [OF assms] by blast
  obtain z k where z: "while_below_minus_180 (Fin (of_int y)) = Some (Fin (of_int z))"
      "- 180 \<le> z" "- 180 \<le> y \<longrightarrow> z = y" "y < - 180 \<longrightarrow> z < 180" "z = y + 360 * int k"
    using while_below_minus_180_int [OF y(6)] by blast
  have "normalizeAngle (Fin (of_int n)) = Some (Fin (of_int z))"
    by (simp add: normalizeAngle_def y(1) z(1))
  moreover have "z \<le> 180" using y(2) z(3,4) by (cases "- 180 \<le> y") auto
  moreover have "n - z = 360 * (int j - int k)" using y(5) z(5) by simp
  ultimately show ?thesis using z(2) by blast
qed

lemma normalizeAngle_examples:
  "normalizeAngle (Fin 370) = Some (Fin 10)"
  "normalizeAngle (Fin (- 190)) = Some (Fin 170)"
  "normalizeAngle (Fin 180) = Some (Fin 180)"
  by (simp_all add: normalizeAngle_def while_above_180.simps while_below_minus_180.simps
      fl_Fin binary64_small_ints js_ops)

text \<open>
  On a large finite angle the first loop does not end: above \<open>2^62\<close> the doubles are more
  than 720 apart, and \<open>10^19 - 360\<close> rounds back to \<open>10^19\<close>.
\<close>

lemma while_above_180_stuck:
  assumes "js_gt angle (Fin 180)" and "fl_sub angle (Fin 360) = angle"
  shows "while_above_180 angle = None"
proof -
  have "a \<noteq> angle" if "while_above_180 a = Some r" for a r
  proof (rule while_above_180.raw_induct [where P = "\<lambda>a r. a \<noteq> angle", OF _ that])
    fix loop a r
    assume IH: "\<And>x y. loop x = Some y \<Longrightarrow> x \<noteq> angle"
      and body: "(if js_gt a (Fin 180) then loop (fl_sub a (Fin 360)) else Some a) = Some r"
    show "a \<noteq> angle"
    proof
      assume "a = angle"
      with body assms have "loop angle = Some r" by simp
      with IH show False by blast
    qed
  qed
  then show ?thesis by (cases "while_above_180 angle") auto
qed

lemma normalizeAngle_never_returns: "normalizeAngle (Fin (10 ^ 19)) = None"
proof -
  have "fl_sub (Fin (10 ^ 19)) (Fin 360) = Fin (10 ^ 19)"
    using binary64_eq [of 63 "10 ^ 19 - 360" "10 ^ 19 div 2 ^ 11"]
    by (simp add: fl_Fin round_half_even_def)
  then have "while_above_180 (Fin (10 ^ 19)) = None"
    by (intro while_above_180_stuck) (simp_all add: js_ops)
  then show ?thesis by (simp add: normalizeAngle_def)
qed

text \<open>
  C6, at -180. The second loop runs while \<open>angle < -180\<close>, so -180 is returned as it is:
  the result is not in the half-open interval \<open>(-180, 180]\<close>. The helper of the same name in
  the dial component, whose loop runs while \<open>angle <= -180\<close>, returns 180 there.
\<close>

theorem normalizeAngle_minus_180:
  "normalizeAngle (Fin (- 180)) = Some (Fin (- 180))
   \<and> normalizeAngle_component (Fin (- 180)) = Some (Fin 180)"
  by (simp add: normalizeAngle_def normalizeAngle_component_def while_above_180.simps
      while_below_minus_180.simps while_at_most_minus_180.simps fl_Fin binary64_small_ints
      js_ops)

section \<open>Rotation by elapsed days\<close>

lemma days_constants:
  "js_mul (js_mul (js_mul (Fin 1000) (Fin 60)) (Fin 60)) (Fin 24) = Fin 86400000"
  "ANGLE_PER_DAY = Fin (360 / 3650)"
  by (simp_all add: ANGLE_PER_DAY_def DAYS_IN_10_YEARS_def)

text \<open>
  C7. For two valid dates (each a string or a \<open>Date\<close> object whose time value is finite,
  \<open>s\<close> and \<open>c\<close> milliseconds), \<open>daysBetween\<close> returns the exact difference \<open>c - s\<close> divided by
  86,400,000 and \<open>calculateRotationAngle\<close> returns that number of days times \<open>360 / 3650\<close>;
  whatever the arguments, \<open>calculateRotationAngle\<close> is \<open>daysBetween\<close> times \<open>360 / 3650\<close>, or
  the error that \<open>daysBetween\<close> raises. So the angle from a date to itself is 0, and when the
  current date is exactly 3650 days after the start the angle is exactly 360, not wrapped.
  The script's copies agree.
\<close>

theorem calculateRotationAngle_fixed_rate:
  assumes "call_getTime (string_or_date new_Date start) = Inr (Fin s)"
    and "call_getTime (string_or_date new_Date current) = Inr (Fin c)"
  shows "daysBetween new_Date start current = Inr (Fin ((c - s) / 86400000))
    \<and> calculateRotationAngle new_Date start current
        = map_sum id (\<lambda>days. js_mul days (js_div (Fin 360) (Fin 3650)))
            (daysBetween new_Date start current)
    \<and> calculateRotationAngle new_Date start current
        = Inr (Fin ((c - s) / 86400000 * (360 / 3650)))
    \<and> calculateRotationAngle new_Date start start = Inr (Fin 0)
    \<and> (c = s + 3650 * 86400000 \<longrightarrow>
          calculateRotationAngle new_Date start current = Inr (Fin 360))
    \<and> daysBetween_static new_Date start current = Inr (Fin ((c - s) / 86400000))
    \<and> calculateRotationAngle_static new_Date start current
        = Inr (Fin ((c - s) / 86400000 * (360 / 3650)))
    \<and> calculateRotationAngle_static new_Date start start = Inr (Fin 0)
    \<and> (c = s + 3650 * 86400000 \<longrightarrow>
          calculateRotationAngle_static new_Date start current = Inr (Fin 360))"
  using assms
  by (simp add: daysBetween_def calculateRotationAngle_def daysBetween_static_def
      calculateRotationAngle_static_def days_constants js_ops)

theorem calculateRotationAngle_fixed_rate_witness:
  "calculateRotationAngle
     (\<lambda>str. if str = ''2024-01-01T00:00:00Z'' then Fin 1704067200000 else NaN)
     (DateString ''2024-01-01'') (DateObject (Date (Fin 2019427200000))) = Inr (Fin 360)
   \<and> calculateRotationAngle
     (\<lambda>str. if str = ''2024-01-01T00:00:00Z'' then Fin 1704067200000 else NaN)
     (DateString ''2024-01-01'') (DateString ''2024-01-01'') = Inr (Fin 0)"
proof -
  let ?new_Date = "\<lambda>str. if str = ''2024-01-01T00:00:00Z'' then Fin 1704067200000 else NaN"
  have s: "call_getTime (string_or_date ?new_Date (DateString ''2024-01-01''))
      = Inr (Fin 1704067200000)"
    by (simp add: call_getTime_def string_or_date_def parseDate_def)
  have c: "call_getTime (string_or_date ?new_Date (DateObject (Date (Fin 2019427200000))))
      = Inr (Fin 2019427200000)"
    by (simp add: call_getTime_def string_or_date_def)
  have "(2019427200000::real) = 1704067200000 + 3650 * 86400000" by simp
  with calculateRotationAngle_fixed_rate [OF s c] show ?thesis by blast
qed

section \<open>The observation tick\<close>





section \<open>The flags of an arc command\<close>

lemma fields_from_word:
  "CHR '' '' \<notin> set a \<Longrightarrow> fields_from w (a @ CHR '' '' # rest) = (rev w @ a) # fields_from [] rest"
  by (induction a arbitrary: w) auto

lemma fields_from_last:
  "CHR '' '' \<notin> set a \<Longrightarrow> fields_from w a = [rev w @ a]"
  by (induction a arbitrary: w) auto

lemma fields_describeArc:
  assumes "\<And>n. CHR '' '' \<notin> set (toString n)"
  shows "fields (describeArc toString cx cy radius startAngle endAngle) =
     [''M'', toString (coord_x (angleToCoords startAngle radius cx cy)),
      toString (coord_y (angleToCoords startAngle radius cx cy)),
      ''A'', toString radius, toString radius, ''0'',
      toString (if js_gt (Math_abs (fl_sub endAngle startAngle)) (Fin 180) then Fin 1 else Fin 0),
      toString (if js_gt endAngle startAngle then Fin 1 else Fin 0),
      toString (coord_x (angleToCoords endAngle radius cx cy)),
      toString (coord_y (angleToCoords endAngle radius cx cy))]"
proof -
  have a: "fields_from [] (''A '' @ r) = ''A'' # fields_from [] r" for r by simp
  have z: "fields_from [] (''0 '' @ r) = ''0'' # fields_from [] r" for r by simp
  have w: "fields_from [] (toString n @ CHR '' '' # r) = toString n # fields_from [] r" for n r
    using fields_from_word [OF assms, of "[]" n r] by simp
  have l: "fields_from [] (toString n) = [toString n]" for n
    using fields_from_last [OF assms, of "[]" n] by simp
  show ?thesis
    unfolding fields_def describeArc_def Let_def
    by (simp add: w l del: fields_from.simps) (simp add: w l)
qed

text \<open>
  The rounded span against 180. Rounding is monotone and 180 is a double, so a real span
  of at most 180 rounds to at most 180, and a real span of at least \<open>180 + 2^-45\<close>, the
  next double, rounds to more than 180.
\<close>

lemma rounded_span_at_most_180:
  assumes "\<bar>x\<bar> \<le> 180"
  shows "\<not> js_gt (Math_abs (binary64 x)) (Fin 180)"
proof -
  have "js_le (binary64 (- 180)) (binary64 x)" and "js_le (binary64 x) (binary64 180)"
    using assms by (intro binary64_mono; simp)+
  then have "js_le (Fin (- 180)) (binary64 x)" and "js_le (binary64 x) (Fin 180)"
    by (simp_all add: binary64_small_ints)
  then obtain r where "binary64 x = Fin r" "- 180 \<le> r" "r \<le> 180"
    using js_le_between by blast
  then show ?thesis by (simp add: js_gt_def)
qed

lemma rounded_span_above_180:
  assumes "180 + 1 / 2 ^ 45 \<le> \<bar>x\<bar>"
  shows "js_gt (Math_abs (binary64 x)) (Fin 180)"
proof -
  have next_double: "binary64 (180 + 1 / 2 ^ 45) = Fin (180 + 1 / 2 ^ 45)"
    using binary64_representable [of "180 + 1 / 2 ^ 45" "180 * 2 ^ 45 + 1" "- 45"] by simp
  have minus: "binary64 (- (180 + 1 / 2 ^ 45)) = Fin (- (180 + 1 / 2 ^ 45))"
    using binary64_representable [of "- (180 + 1 / 2 ^ 45)" "- (180 * 2 ^ 45 + 1)" "- 45"]
    by simp
  consider "180 + 1 / 2 ^ 45 \<le> x" | "x \<le> - (180 + 1 / 2 ^ 45)" using assms by linarith
  then show ?thesis
  proof cases
    case 1
    then have "js_le (binary64 (180 + 1 / 2 ^ 45)) (binary64 x)" by (rule binary64_mono)
    then have "js_le (Fin (180 + 1 / 2 ^ 45)) (binary64 x)" by (simp only: next_double)
    then show ?thesis by (cases "binary64 x") (simp_all add: js_gt_def)
  next
    case 2
    then have "js_le (binary64 x) (binary64 (- (180 + 1 / 2 ^ 45)))" by (rule binary64_mono)
    then have "js_le (binary64 x) (Fin (- (180 + 1 / 2 ^ 45)))" by (simp only: minus)
    then show ?thesis by (cases "binary64 x") (simp_all add: js_gt_def)
  qed
qed

text \<open>
  C9. Let the conversion of a number to a string put no space in its output and write 1
  as \<open>1\<close> and 0 as \<open>0\<close>, as JavaScript's does. Then for every \<open>cx\<close>, \<open>cy\<close>, \<open>radius\<close>,
  \<open>startAngle\<close> and \<open>endAngle\<close> the large-arc flag of the command that \<open>describeArc\<close> returns
  is 1 if and only if \<open>|endAngle - startAngle| > 180\<close>, where the difference is the one the
  program computes (the rounded double), and its sweep flag is 1 if and only if
  \<open>endAngle > startAngle\<close>; the comparisons are JavaScript's, false on \<open>NaN\<close>. On finite
  angles \<open>a\<close> and \<open>b\<close> the difference is \<open>binary64 (b - a)\<close>: the large-arc flag is 0 when
  the real span \<open>|b - a|\<close> is at most 180 and 1 when it is at least \<open>180 + 2^-45\<close>; the sweep
  flag compares the reals.
\<close>

theorem describeArc_flags:
  assumes "\<And>n. CHR '' '' \<notin> set (toString n)"
    and "toString (Fin 1) = ''1''" and "toString (Fin 0) = ''0''"
  shows "(large_arc_field (describeArc toString cx cy radius startAngle endAngle) = ''1''
          \<longleftrightarrow> js_gt (Math_abs (fl_sub endAngle startAngle)) (Fin 180))
    \<and> (sweep_field (describeArc toString cx cy radius startAngle endAngle) = ''1''
          \<longleftrightarrow> js_gt endAngle startAngle)
    \<and> (large_arc_field (describeArc toString cx cy radius (Fin a) (Fin b)) = ''1''
          \<longleftrightarrow> js_gt (Math_abs (binary64 (b - a))) (Fin 180))
    \<and> (\<bar>b - a\<bar> \<le> 180 \<longrightarrow>
          large_arc_field (describeArc toString cx cy radius (Fin a) (Fin b)) = ''0'')
    \<and> (180 + 1 / 2 ^ 45 \<le> \<bar>b - a\<bar> \<longrightarrow>
          large_arc_field (describeArc toString cx cy radius (Fin a) (Fin b)) = ''1'')
    \<and> (sweep_field (describeArc toString cx cy radius (Fin a) (Fin b)) = ''1''
          \<longleftrightarrow> a < b)"
proof -
  have large: "large_arc_field (describeArc toString cx cy radius s e)
      = (if js_gt (Math_abs (fl_sub e s)) (Fin 180) then ''1'' else ''0'')" for s e
    by (simp add: large_arc_field_def fields_describeArc [OF assms(1)] assms(2,3))
  have sweep: "sweep_field (describeArc toString cx cy radius s e)
      = (if js_gt e s then ''1'' else ''0'')" for s e
    by (simp add: sweep_field_def fields_describeArc [OF assms(1)] assms(2,3))
  have "\<bar>b - a\<bar> \<le> 180 \<longrightarrow>
      large_arc_field (describeArc toString cx cy radius (Fin a) (Fin b)) = ''0''"
    using rounded_span_at_most_180 [of "b - a"] by (simp add: large fl_Fin)
  moreover have "180 + 1 / 2 ^ 45 \<le> \<bar>b - a\<bar> \<longrightarrow>
      large_arc_field (describeArc toString cx cy radius (Fin a) (Fin b)) = ''1''"
    using rounded_span_above_180 [of "b - a"] by (simp add: large fl_Fin)
  ultimately show ?thesis by (simp add: large sweep fl_Fin js_ops)
qed

theorem describeArc_flags_witness:
  "large_arc_field (describeArc (\<lambda>n. if n = Fin 1 then ''1'' else ''0'')
      (Fin 512) (Fin 512) (Fin 100) (Fin 0) (Fin 270)) = ''1''
   \<and> sweep_field (describeArc (\<lambda>n. if n = Fin 1 then ''1'' else ''0'')
      (Fin 512) (Fin 512) (Fin 100) (Fin 0) (Fin 270)) = ''1''
   \<and> large_arc_field (describeArc (\<lambda>n. if n = Fin 1 then ''1'' else ''0'')
      (Fin 512) (Fin 512) (Fin 100) (Fin 90) (Fin 0)) \<noteq> ''1''
   \<and> sweep_field (describeArc (\<lambda>n. if n = Fin 1 then ''1'' else ''0'')
      (Fin 512) (Fin 512) (Fin 100) (Fin 90) (Fin 0)) \<noteq> ''1''"
proof -
  let ?toString = "\<lambda>n. if n = Fin 1 then ''1'' else ''0''"
  have no_space: "CHR '' '' \<notin> set (?toString n)" for n by simp
  have one: "?toString (Fin 1) = ''1''" and zero: "?toString (Fin 0) = ''0''" by simp_all
  from describeArc_flags [of ?toString, OF no_space one zero,
      of "Fin 512" "Fin 512" "Fin 100" "Fin 0" "Fin 270" 0 270]
    describeArc_flags [of ?toString, OF no_space one zero,
      of "Fin 512" "Fin 512" "Fin 100" "Fin 90" "Fin 0" 90 0]
  show ?thesis by (simp add: fl_Fin binary64_small_ints js_ops)
qed

text \<open>
  The rounded difference is not the real one: from \<open>-2^-60\<close> to 180 the real span exceeds
  180, the computed difference is the double 180, and the large-arc flag is 0.
\<close>

lemma describeArc_large_arc_on_rounded_span:
  assumes "\<And>n. CHR '' '' \<notin> set (toString n)"
    and "toString (Fin 1) = ''1''" and "toString (Fin 0) = ''0''"
  shows "(180 :: real) < \<bar>180 - (- 1 / 2 ^ 60)\<bar>
    \<and> large_arc_field (describeArc toString cx cy radius (Fin (- 1 / 2 ^ 60)) (Fin 180)) = ''0''"
proof -
  have "binary64 (180 + 1 / 2 ^ 60) = Fin 180"
    using binary64_eq [of 7 "180 + 1 / 2 ^ 60" "180 * 2 ^ 45"]
    by (simp add: round_half_even_def)
  then have "fl_sub (Fin 180) (Fin (- 1 / 2 ^ 60)) = Fin 180"
    by (simp add: fl_Fin)
  then show ?thesis
    by (simp add: large_arc_field_def fields_describeArc [OF assms(1)] assms(2,3) js_ops)
qed

end
